theory Spec2Isabelle
  imports Main
begin

section \<open>The syntax tree\<close>

text \<open>
  The checker of \<^verbatim>\<open>pylint/checkers/refactoring/implicit_booleaness_checker.py\<close>
  reads an astroid syntax tree. The node classes it distinguishes are constructors of
  their own; every other class is \<open>Other\<close> with its class name and its children.
  A \<open>Call\<close> holds \<open>func\<close> and \<open>args\<close>, a \<open>UnaryOp\<close> holds \<open>op\<close> and
  \<open>operand\<close>, a \<open>BoolOp\<close> holds \<open>op\<close> and \<open>values\<close>, \<open>If\<close> and \<open>While\<close>
  hold \<open>test\<close>, \<open>body\<close> and \<open>orelse\<close>, \<open>IfExp\<close> holds \<open>test\<close>, \<open>body\<close> and
  \<open>orelse\<close>, \<open>Assert\<close> holds \<open>test\<close> and the optional \<open>fail\<close>.
\<close>

datatype node =
    Name string
  | Call node "node list"
  | UnaryOp string node
  | BoolOp string "node list"
  | If node "node list" "node list"
  | While node "node list" "node list"
  | IfExp node node node
  | Assert node "node option"
  | ListComp "node list"
  | SetComp "node list"
  | DictComp "node list"
  | GeneratorExp "node list"
  | Other string "node list"

text \<open>
  A node object is identified by its position: the list of child indices that leads to
  it from the root of the tree. \<open>children\<close> lists the children of a node in the order
  of astroid's \<^verbatim>\<open>get_children\<close>; the \<open>test\<close> of a condition is child 0, the
  \<open>operand\<close> of a \<open>UnaryOp\<close> is child 0, the arguments of a \<open>Call\<close> follow its
  \<open>func\<close>.
\<close>

type_synonym path = "nat list"

fun children :: "node \<Rightarrow> node list" where
  "children (Name _) = []"
| "children (Call func args) = func # args"
| "children (UnaryOp _ operand) = [operand]"
| "children (BoolOp _ values) = values"
| "children (If test body orelse) = test # body @ orelse"
| "children (While test body orelse) = test # body @ orelse"
| "children (IfExp test body orelse) = [test, body, orelse]"
| "children (Assert test fail) = test # (case fail of None \<Rightarrow> [] | Some f \<Rightarrow> [f])"
| "children (ListComp cs) = cs"
| "children (SetComp cs) = cs"
| "children (DictComp cs) = cs"
| "children (GeneratorExp cs) = cs"
| "children (Other _ cs) = cs"

fun get :: "node \<Rightarrow> path \<Rightarrow> node option" where
  "get t [] = Some t"
| "get t (i # p) = (if i < length (children t) then get (children t ! i) p else None)"

text \<open>\<^verbatim>\<open>node.parent\<close>: the root has no parent (\<^verbatim>\<open>None\<close>).\<close>

definition parent :: "path \<Rightarrow> path option" where
  "parent p = (if p = [] then None else Some (butlast p))"

section \<open>The collaborators\<close>

text \<open>
  The exceptions that can leave a handler: \<^verbatim>\<open>IndexError\<close> from
  \<^verbatim>\<open>node.args[0]\<close>, and whatever the evaluation of
  \<^verbatim>\<open>instance.ancestors()\<close> raises, unless it is the \<^verbatim>\<open>TypeError\<close> that
  \<^verbatim>\<open>base_classes_of_node\<close> catches. A value that is no class or instance (a module,
  a function) has no \<^verbatim>\<open>ancestors\<close> at all: \<^verbatim>\<open>AttributeError\<close>.
\<close>

datatype error = IndexError | AttributeError | TypeError

text \<open>
  What astroid's inference answers for the argument of the call. \<^verbatim>\<open>next(len_arg.infer())\<close>
  either raises \<^verbatim>\<open>InferenceError\<close> or returns a value; of that value the checker reads
  \<^verbatim>\<open>name\<close>, evaluates \<^verbatim>\<open>ancestors()\<close> and iterates it, which gives the
  ancestors or raises, and calls \<^verbatim>\<open>getattr\<close>, which returns or raises
  \<^verbatim>\<open>AttributeInferenceError\<close>.
\<close>

datatype ancestry = Raises error | Ancestors "string list"

datatype lookup = AttributeInferenceError | Found

datatype class_def = ClassDef (name: string) (ancestors: ancestry) (getattr: "string \<Rightarrow> lookup")

datatype inference = InferenceError | Inferred class_def

text \<open>The messages the checker has added (\<^verbatim>\<open>add_message(msgid, node=node)\<close>).\<close>

record message =
  msg_id :: string
  msg_node :: path

definition add_message :: "string \<Rightarrow> path \<Rightarrow> message list \<Rightarrow> message list" where
  "add_message msgid node_path sink = sink @ [\<lparr>msg_id = msgid, msg_node = node_path\<rparr>]"

section \<open>The helpers of \<^verbatim>\<open>pylint.checkers.utils\<close>\<close>

text \<open>
  Modelled from the spec: \<^verbatim>\<open>utils.is_call_of_name\<close> is not among the sources. The
  spec's \<open>Call\<close> has a callee name, and a length computation is "a call invoking the
  fixed size-of-container operation": the node is a \<open>Call\<close> whose callee is the given name.
\<close>

fun is_call_of_name :: "node \<Rightarrow> string \<Rightarrow> bool" where
  "is_call_of_name (Call (Name f) _) nm = (f = nm)"
| "is_call_of_name _ _ = False"

text \<open>
  Modelled from the spec: the condition-bearing node kinds of section 4.1, whose
  \<open>test\<close> child is a test site. They belong to \<^verbatim>\<open>utils.is_test_condition\<close>,
  which is not among the sources.
\<close>

fun is_condition :: "node \<Rightarrow> bool" where
  "is_condition (If _ _ _) = True"
| "is_condition (While _ _ _) = True"
| "is_condition (IfExp _ _ _) = True"
| "is_condition (Assert _ _) = True"
| "is_condition _ = False"

text \<open>
  Modelled from the spec: \<^verbatim>\<open>utils.is_test_condition\<close> is not among the sources. By
  section 4.1 of the spec, truthiness position holds iff the test site (the ancestor
  handed over by the caller) is an \<open>If\<close>, \<open>While\<close>, \<open>IfExp\<close> or \<open>Assert\<close> and
  the call, after flattening, occupies its test-child slot: the child of the test site
  on the way down to the call is its \<open>test\<close>, which is child 0. Without a test site
  (\<^verbatim>\<open>None\<close>) the answer is no. The docstring of the checker also lists
  \<^verbatim>\<open>bool(len(sequence))\<close> among the problems detected; section 4.1 names the
  four condition kinds only, and the model follows it.
\<close>

definition is_test_condition :: "node \<Rightarrow> path \<Rightarrow> path option \<Rightarrow> bool" where
  "is_test_condition t p site =
     (case site of
        None \<Rightarrow> False
      | Some q \<Rightarrow>
          (case get t q of
             None \<Rightarrow> False
           | Some n \<Rightarrow> is_condition n \<and> take (Suc (length q)) p = q @ [0]))"

section \<open>The checker\<close>

text \<open>
  The table \<^verbatim>\<open>msgs\<close>: message id, message, symbol, description, old names.
\<close>

definition msgs ::
  "(string \<times> string \<times> string \<times> string \<times> (string \<times> string) list) list" where
  "msgs =
     [(''C1802'',
       ''Do not use `len(SEQUENCE)` without comparison to determine if a sequence is empty'',
       ''use-implicit-booleaness-not-len'',
       ''Used when Pylint detects that len(sequence) is being used ''
       @ ''without explicit comparison inside a condition to determine if a sequence is empty. ''
       @ ''Instead of coercing the length to a boolean, either ''
       @ ''rely on the fact that empty sequences are false or ''
       @ ''compare the length against a scalar.'',
       [(''C1801'', ''len-as-condition'')])]"

fun is_BoolOp :: "node \<Rightarrow> bool" where
  "is_BoolOp (BoolOp _ _) = True"
| "is_BoolOp _ = False"

text \<open>
  \<^verbatim>\<open>while isinstance(parent, nodes.BoolOp): parent = parent.parent\<close>, on positions.
\<close>

function skip_boolops :: "node \<Rightarrow> path option \<Rightarrow> path option" where
  "skip_boolops t None = None"
| "skip_boolops t (Some q) =
     (case get t q of
        Some n \<Rightarrow> if is_BoolOp n then skip_boolops t (parent q) else Some q
      | None \<Rightarrow> Some q)"
  by pat_completeness auto
termination
  by (relation "measure (\<lambda>(t, q). case q of None \<Rightarrow> 0 | Some p \<Rightarrow> Suc (length p))")
     (auto simp: parent_def)

fun is_generator_or_comprehension :: "node \<Rightarrow> bool" where
  "is_generator_or_comprehension (ListComp _) = True"
| "is_generator_or_comprehension (SetComp _) = True"
| "is_generator_or_comprehension (DictComp _) = True"
| "is_generator_or_comprehension (GeneratorExp _) = True"
| "is_generator_or_comprehension _ = False"

text \<open>
  \<^verbatim>\<open>instance_has_bool\<close> turns the outcome of \<^verbatim>\<open>getattr("__bool__")\<close> into
  a truth value; \<^verbatim>\<open>base_classes_of_node\<close> falls back to the own name when
  \<^verbatim>\<open>ancestors()\<close> raises \<^verbatim>\<open>TypeError\<close>, the one exception it catches;
  any other exception leaves it.
\<close>

definition instance_has_bool :: "class_def \<Rightarrow> bool" where
  "instance_has_bool class_def =
     (case getattr class_def ''__bool__'' of
        Found \<Rightarrow> True
      | AttributeInferenceError \<Rightarrow> False)"

definition base_classes_of_node :: "class_def \<Rightarrow> error + string list" where
  "base_classes_of_node inst =
     (case ancestors inst of
        Ancestors xs \<Rightarrow> Inr ([name inst] @ xs)
      | Raises e \<Rightarrow> if e = TypeError then Inr [name inst] else Inl e)"

text \<open>
  \<^verbatim>\<open>visit_call\<close> is run on the node at position \<open>p\<close> of \<open>tree\<close> with the
  messages added so far, and returns them extended, or the exception. \<open>infer\<close> stands
  for \<^verbatim>\<open>next(len_arg.infer())\<close>; \<open>site\<close> is the source's variable
  \<^verbatim>\<open>parent\<close> after the loop.
\<close>

definition visit_call ::
  "(node \<Rightarrow> inference) \<Rightarrow> node \<Rightarrow> path \<Rightarrow> message list \<Rightarrow> error + message list" where
  "visit_call infer tree p sink =
     (case get tree p of
        None \<Rightarrow> Inr sink
      | Some nd \<Rightarrow>
          if \<not> is_call_of_name nd ''len'' then Inr sink
          else
            let site = skip_boolops tree (parent p) in
            if \<not> is_test_condition tree p site then Inr sink
            else
              (case nd of
                 Call _ [] \<Rightarrow> Inl IndexError
               | Call _ (len_arg # _) \<Rightarrow>
                   if is_generator_or_comprehension len_arg
                   then Inr (add_message ''use-implicit-booleaness-not-len'' p sink)
                   else
                     (case infer len_arg of
                        InferenceError \<Rightarrow> Inr sink
                      | Inferred inst \<Rightarrow>
                          (case base_classes_of_node inst of
                             Inl e \<Rightarrow> Inl e
                           | Inr mother_classes \<Rightarrow>
                               let affected_by_pep8 =
                                     list_ex (\<lambda>t. t \<in> set mother_classes)
                                       [''str'', ''tuple'', ''list'', ''set'']
                               in if ''range'' \<in> set mother_classes
                                     \<or> (affected_by_pep8 \<and> \<not> instance_has_bool inst)
                                  then Inr (add_message ''use-implicit-booleaness-not-len'' p sink)
                                  else Inr sink))
               | _ \<Rightarrow> Inr sink))"

text \<open>\<^verbatim>\<open>visit_unaryop\<close> raises nothing, so it returns the messages.\<close>

definition visit_unaryop :: "node \<Rightarrow> path \<Rightarrow> message list \<Rightarrow> message list" where
  "visit_unaryop t p sink =
     (case get t p of
        Some (UnaryOp op operand) \<Rightarrow>
          if op = ''not'' \<and> is_call_of_name operand ''len''
          then add_message ''use-implicit-booleaness-not-len'' p sink
          else sink
      | _ \<Rightarrow> sink)"

section \<open>Rebuilding a tree around a node\<close>

text \<open>
  To compare a call with the same call wrapped in boolean operators, the tree is rebuilt:
  \<open>set_child\<close> exchanges one child of a node (the index counts as in \<open>children\<close>),
  \<open>replace\<close> exchanges the subtree at a position, and \<open>nest\<close> wraps a node in
  \<open>BoolOp\<close> levels, outermost first, each with the operands before and after it;
  \<open>nest_path\<close> is the way through these levels down to the wrapped node.
\<close>

fun set_child :: "node \<Rightarrow> nat \<Rightarrow> node \<Rightarrow> node" where
  "set_child (Name x) i s = Name x"
| "set_child (Call func args) i s =
     (if i = 0 then Call s args else Call func (args[i - 1 := s]))"
| "set_child (UnaryOp op operand) i s =
     (if i = 0 then UnaryOp op s else UnaryOp op operand)"
| "set_child (BoolOp op values) i s = BoolOp op (values[i := s])"
| "set_child (If test body orelse) i s =
     (if i = 0 then If s body orelse
      else if i - 1 < length body then If test (body[i - 1 := s]) orelse
      else If test body (orelse[i - 1 - length body := s]))"
| "set_child (While test body orelse) i s =
     (if i = 0 then While s body orelse
      else if i - 1 < length body then While test (body[i - 1 := s]) orelse
      else While test body (orelse[i - 1 - length body := s]))"
| "set_child (IfExp test body orelse) i s =
     (if i = 0 then IfExp s body orelse
      else if i = 1 then IfExp test s orelse
      else if i = 2 then IfExp test body s
      else IfExp test body orelse)"
| "set_child (Assert test fail) i s =
     (if i = 0 then Assert s fail
      else if i = 1 \<and> fail \<noteq> None then Assert test (Some s)
      else Assert test fail)"
| "set_child (ListComp cs) i s = ListComp (cs[i := s])"
| "set_child (SetComp cs) i s = SetComp (cs[i := s])"
| "set_child (DictComp cs) i s = DictComp (cs[i := s])"
| "set_child (GeneratorExp cs) i s = GeneratorExp (cs[i := s])"
| "set_child (Other c cs) i s = Other c (cs[i := s])"

fun replace :: "node \<Rightarrow> path \<Rightarrow> node \<Rightarrow> node" where
  "replace t [] s = s"
| "replace t (i # p) s =
     (if i < length (children t) then set_child t i (replace (children t ! i) p s) else t)"

fun nest :: "(string \<times> node list \<times> node list) list \<Rightarrow> node \<Rightarrow> node" where
  "nest [] c = c"
| "nest ((op, before, after) # ws) c = BoolOp op (before @ [nest ws c] @ after)"

definition nest_path :: "(string \<times> node list \<times> node list) list \<Rightarrow> path" where
  "nest_path ws = map (\<lambda>(op, before, after). length before) ws"

section \<open>Concrete programs\<close>

text \<open>
  The programs and inference answers of the spec's scenarios, used to run the handlers.
  \<open>len_items\<close> is \<^verbatim>\<open>len(items)\<close>; \<open>if_len_items\<close> is
  \<^verbatim>\<open>if len(items): pass\<close>; \<open>if_not_len_items\<close> is \<^verbatim>\<open>if not len(items): pass\<close>;
  \<open>assign_len_items\<close> is \<^verbatim>\<open>x = len(items)\<close>; \<open>assign_not_len_items\<close> is
  \<^verbatim>\<open>x = not len(items)\<close>; \<open>if_len_listcomp\<close> is
  \<^verbatim>\<open>if len([y for y in ys]): pass\<close>; \<open>if_len_os\<close> is \<^verbatim>\<open>if len(os): pass\<close>, after \<^verbatim>\<open>import os\<close>.
\<close>

definition len_items :: node where
  "len_items = Call (Name ''len'') [Name ''items'']"

definition if_len_items :: node where
  "if_len_items = If len_items [Other ''Pass'' []] []"

definition if_not_len_items :: node where
  "if_not_len_items = If (UnaryOp ''not'' len_items) [Other ''Pass'' []] []"

definition assign_len_items :: node where
  "assign_len_items = Other ''Assign'' [Name ''x'', len_items]"

definition assign_not_len_items :: node where
  "assign_not_len_items = Other ''Assign'' [Name ''x'', UnaryOp ''not'' len_items]"

definition if_len_listcomp :: node where
  "if_len_listcomp =
     If (Call (Name ''len'')
           [ListComp [Name ''y'', Other ''Comprehension'' [Name ''y'', Name ''ys'']]])
        [Other ''Pass'' []] []"

definition if_len_os :: node where
  "if_len_os = If (Call (Name ''len'') [Name ''os'']) [Other ''Pass'' []] []"

text \<open>
  The built-in \<^verbatim>\<open>list\<close>, which has no \<^verbatim>\<open>__bool__\<close>; a class derived from
  \<^verbatim>\<open>list\<close> that defines \<^verbatim>\<open>__bool__\<close>; a class derived from \<^verbatim>\<open>range\<close>
  that defines \<^verbatim>\<open>__bool__\<close>.
\<close>

definition list_class :: class_def where
  "list_class = ClassDef ''list'' (Ancestors [''object'']) (\<lambda>attr. AttributeInferenceError)"

definition list_with_bool :: class_def where
  "list_with_bool =
     ClassDef ''Stack'' (Ancestors [''list'', ''object''])
       (\<lambda>attr. if attr = ''__bool__'' then Found else AttributeInferenceError)"

definition range_with_bool :: class_def where
  "range_with_bool =
     ClassDef ''Span'' (Ancestors [''range'', ''object''])
       (\<lambda>attr. if attr = ''__bool__'' then Found else AttributeInferenceError)"

text \<open>
  The module \<^verbatim>\<open>os\<close>: a module has a name but no \<^verbatim>\<open>ancestors\<close>, and
  no \<^verbatim>\<open>__bool__\<close>. \<open>infer_os\<close> is the inference after \<^verbatim>\<open>import os\<close>.
\<close>

definition module_os :: class_def where
  "module_os = ClassDef ''os'' (Raises AttributeError) (\<lambda>attr. AttributeInferenceError)"

definition infer_os :: "node \<Rightarrow> inference" where
  "infer_os n = (if n = Name ''os'' then Inferred module_os else InferenceError)"

text \<open>An inference that knows the name \<^verbatim>\<open>items\<close> only.\<close>

definition infer_items :: "inference \<Rightarrow> node \<Rightarrow> inference" where
  "infer_items answer n = (if n = Name ''items'' then answer else InferenceError)"

section \<open>Positions and rebuilt trees\<close>

lemma parent_snoc: "parent (q @ [i]) = Some q"
  by (simp add: parent_def)

lemma get_append: "get t (p @ q) = (case get t p of None \<Rightarrow> None | Some n \<Rightarrow> get n q)"
  by (induction p arbitrary: t) auto

lemma children_set_child: "children (set_child n i s) = (children n)[i := s]"
  by (cases n; cases i) (auto simp: list_update_append split: option.splits nat.splits)

lemma is_BoolOp_set_child: "is_BoolOp (set_child n i s) = is_BoolOp n"
  by (cases n) auto

lemma is_condition_set_child: "is_condition (set_child n i s) = is_condition n"
  by (cases n) auto

lemma get_replace: "get t p = Some c \<Longrightarrow> get (replace t p s) p = Some s"
  by (induction p arbitrary: t) (auto simp: children_set_child split: if_splits)

text \<open>A node above the replaced position keeps its class.\<close>

lemma get_replace_above:
  "get t (q @ i # r) = Some c \<Longrightarrow>
   \<exists>n n'. get t q = Some n \<and> get (replace t (q @ i # r) s) q = Some n'
     \<and> is_BoolOp n' = is_BoolOp n \<and> is_condition n' = is_condition n"
proof (induction q arbitrary: t)
  case Nil
  then show ?case
    by (auto simp: is_BoolOp_set_child is_condition_set_child split: if_splits)
next
  case (Cons j q)
  then show ?case
    by (auto simp: children_set_child split: if_splits)
qed

lemma get_nest: "get (nest ws c) (nest_path ws) = Some c"
  by (induction ws) (auto simp: nest_path_def nth_append)

lemma get_nest_take:
  "k < length ws \<Longrightarrow> \<exists>n. get (nest ws c) (take k (nest_path ws)) = Some n \<and> is_BoolOp n"
proof (induction ws arbitrary: k)
  case Nil
  then show ?case by simp
next
  case (Cons w ws)
  obtain op before after where w: "w = (op, before, after)" by (cases w)
  show ?case
  proof (cases k)
    case 0
    then show ?thesis by (simp add: w)
  next
    case (Suc k')
    with Cons.prems have "k' < length ws" by simp
    from Cons.IH[OF this] show ?thesis
      by (auto simp: w Suc nest_path_def nth_append)
  qed
qed

lemma get_replace_nest:
  assumes "get t p = Some c"
  shows "get (replace t p (nest ws c)) (p @ nest_path ws) = Some c"
  by (simp add: get_append get_replace[OF assms] get_nest)


lemma skip_boolops_replace_above:
  "get t (q @ i # r) = Some c \<Longrightarrow>
   skip_boolops (replace t (q @ i # r) s) (Some q) = skip_boolops t (Some q)"
proof (induction q arbitrary: i r rule: rev_induct)
  case Nil
  from get_replace_above[OF Nil.prems, of s] show ?case
    by (auto simp: parent_def simp del: replace.simps)
next
  case (snoc j q)
  from snoc.prems have g: "get t (q @ j # i # r) = Some c" by simp
  from snoc.IH[OF g]
  have ih: "skip_boolops (replace t ((q @ [j]) @ i # r) s) (Some q) = skip_boolops t (Some q)"
    by simp
  from get_replace_above[OF snoc.prems, of s] ih show ?case
    by (auto simp: parent_snoc simp del: replace.simps)
qed

text \<open>The loop stops at or above the position it starts from.\<close>

lemma skip_boolops_prefix:
  "skip_boolops t (Some q0) = Some q \<Longrightarrow> \<exists>r. q0 = q @ r"
proof (induction q0 rule: rev_induct)
  case Nil
  then show ?case by (auto simp: parent_def split: option.splits if_splits)
next
  case (snoc j q0)
  then show ?case by (auto simp: parent_snoc split: option.splits if_splits)
qed

text \<open>The loop climbs through a run of \<open>BoolOp\<close> nodes.\<close>

lemma skip_boolops_through:
  "\<forall>k<length js. \<exists>n. get t (p @ take k js) = Some n \<and> is_BoolOp n \<Longrightarrow>
   skip_boolops t (parent (p @ js)) = skip_boolops t (parent p)"
proof (induction js rule: rev_induct)
  case Nil
  then show ?case by simp
next
  case (snoc j js)
  have "\<forall>k<length js. \<exists>n. get t (p @ take k js) = Some n \<and> is_BoolOp n"
  proof (intro allI impI)
    fix k assume "k < length js"
    with snoc.prems show "\<exists>n. get t (p @ take k js) = Some n \<and> is_BoolOp n"
      by (auto dest!: spec[of _ k])
  qed
  from snoc.IH[OF this] have ih: "skip_boolops t (parent (p @ js)) = skip_boolops t (parent p)" .
  from snoc.prems have "\<exists>n. get t (p @ js) = Some n \<and> is_BoolOp n"
    by (auto dest!: spec[of _ "length js"])
  then have "skip_boolops t (Some (p @ js)) = skip_boolops t (parent (p @ js))"
    by auto
  moreover have "parent (p @ js @ [j]) = Some (p @ js)"
    using parent_snoc[of "p @ js" j] by simp
  ultimately show ?case using ih by simp
qed

lemma site_above:
  assumes "skip_boolops t (parent p) = Some q"
  shows "\<exists>i r. p = q @ i # r"
proof (cases p rule: rev_cases)
  case Nil
  with assms show ?thesis by (simp add: parent_def)
next
  case (snoc q0 i)
  with assms have "skip_boolops t (Some q0) = Some q" by (simp add: parent_snoc)
  from skip_boolops_prefix[OF this] obtain r where "q0 = q @ r" by blast
  with snoc show ?thesis by (cases r) auto
qed

lemma site_replace_nest:
  assumes "get t p = Some c"
  shows "skip_boolops (replace t p (nest ws c)) (parent (p @ nest_path ws))
         = skip_boolops t (parent p)"
proof -
  let ?t = "replace t p (nest ws c)"
  have "\<forall>k<length (nest_path ws). \<exists>n. get ?t (p @ take k (nest_path ws)) = Some n \<and> is_BoolOp n"
  proof (intro allI impI)
    fix k assume "k < length (nest_path ws)"
    then have "k < length ws" by (simp add: nest_path_def)
    from get_nest_take[OF this, of c] show "\<exists>n. get ?t (p @ take k (nest_path ws)) = Some n \<and> is_BoolOp n"
      by (simp add: get_append get_replace[OF assms])
  qed
  then have "skip_boolops ?t (parent (p @ nest_path ws)) = skip_boolops ?t (parent p)"
    by (rule skip_boolops_through)
  also have "skip_boolops ?t (parent p) = skip_boolops t (parent p)"
  proof (cases p rule: rev_cases)
    case Nil
    then show ?thesis by (simp add: parent_def)
  next
    case (snoc q i)
    with assms have "get t (q @ i # []) = Some c" by simp
    from skip_boolops_replace_above[OF this] show ?thesis
      by (simp add: snoc parent_snoc)
  qed
  finally show ?thesis .
qed

lemma is_test_condition_replace:
  assumes "get t p = Some c" and p: "p = q @ i # r"
  shows "is_test_condition (replace t p s) (p @ js) (Some q) = is_test_condition t p (Some q)"
proof -
  from assms have "get t (q @ i # r) = Some c" by simp
  from get_replace_above[OF this, of s] show ?thesis
    unfolding is_test_condition_def p by (auto simp del: replace.simps)
qed

lemma classification_replace_nest:
  assumes "get t p = Some c"
  shows "is_test_condition (replace t p (nest ws c)) (p @ nest_path ws)
           (skip_boolops (replace t p (nest ws c)) (parent (p @ nest_path ws)))
         = is_test_condition t p (skip_boolops t (parent p))"
proof (cases "skip_boolops t (parent p)")
  case None
  then show ?thesis by (simp add: site_replace_nest[OF assms] is_test_condition_def)
next
  case (Some q)
  from site_above[OF Some] obtain i r where p: "p = q @ i # r" by blast
  have "is_test_condition (replace t p (nest ws c)) (p @ nest_path ws) (Some q)
        = is_test_condition t p (Some q)"
    using assms p by (rule is_test_condition_replace)
  then show ?thesis
    unfolding site_replace_nest[OF assms] Some .
qed

text \<open>
  Two visits of the same call node whose classifications agree end alike; only the
  position written into the message differs.
\<close>

lemma visit_call_same_site:
  assumes "get t p = Some c" and "get t' p' = Some c"
    and "is_test_condition t' p' (skip_boolops t' (parent p'))
         = is_test_condition t p (skip_boolops t (parent p))"
  shows "(visit_call infer t' p' sink = Inl e \<longleftrightarrow> visit_call infer t p sink = Inl e)
    \<and> (visit_call infer t' p' sink = Inr sink \<longleftrightarrow> visit_call infer t p sink = Inr sink)
    \<and> (visit_call infer t' p' sink = Inr (add_message ''use-implicit-booleaness-not-len'' p' sink)
        \<longleftrightarrow> visit_call infer t p sink = Inr (add_message ''use-implicit-booleaness-not-len'' p sink))"
  using assms
  by (auto simp: visit_call_def Let_def add_message_def
           split: node.splits list.splits inference.splits sum.splits)

text \<open>The positions of the concrete programs.\<close>

lemma if_len_items_test_condition:
  "is_test_condition if_len_items [0] (skip_boolops if_len_items (parent [0]))"
  by (simp add: is_test_condition_def parent_def if_len_items_def)

lemma if_len_items_call: "get if_len_items [0] = Some (Call (Name ''len'') [Name ''items''])"
  by (simp add: if_len_items_def len_items_def)


lemma assign_len_items_site:
  "skip_boolops assign_len_items (parent [1]) = Some []"
  by (simp add: parent_def assign_len_items_def)


lemma if_len_items_list_class:
  "visit_call (infer_items (Inferred list_class)) if_len_items [0] []
   = Inr [\<lparr>msg_id = ''use-implicit-booleaness-not-len'', msg_node = [0]\<rparr>]"
  by (simp add: visit_call_def if_len_items_def len_items_def is_test_condition_def
        parent_def infer_items_def add_message_def base_classes_of_node_def
        instance_has_bool_def list_class_def)

section \<open>When the call handler raises\<close>

text \<open>
  The call handler raises in two places only: \<^verbatim>\<open>node.args[0]\<close> on a call without
  arguments, and \<^verbatim>\<open>base_classes_of_node\<close> when \<^verbatim>\<open>ancestors()\<close> of the
  inferred value raises anything but \<^verbatim>\<open>TypeError\<close>.
\<close>

lemma visit_call_no_argument:
  assumes "get t p = Some (Call func [])"
    and "is_call_of_name (Call func []) ''len''"
    and "is_test_condition t p (skip_boolops t (parent p))"
  shows "visit_call infer t p sink = Inl IndexError"
  using assms by (simp add: visit_call_def Let_def)

lemma visit_call_raises:
  assumes "visit_call infer t p sink = Inl e"
  shows "(\<exists>func. get t p = Some (Call func []) \<and> e = IndexError)
    \<or> (\<exists>func len_arg rest inst. get t p = Some (Call func (len_arg # rest))
          \<and> infer len_arg = Inferred inst \<and> ancestors inst = Raises e \<and> e \<noteq> TypeError)"
  using assms
  by (auto simp: visit_call_def Let_def base_classes_of_node_def
           split: option.splits if_splits node.splits list.splits inference.splits
             sum.splits ancestry.splits)

lemma visit_call_returns:
  assumes "get t p = Some (Call func (len_arg # rest))"
    and "\<And>inst. infer len_arg = Inferred inst \<Longrightarrow>
           ancestors inst = Raises TypeError \<or> (\<exists>xs. ancestors inst = Ancestors xs)"
  shows "\<exists>s. visit_call infer t p sink = Inr s"
proof (cases "visit_call infer t p sink")
  case (Inl e)
  from visit_call_raises[OF Inl] assms show ?thesis by auto
next
  case (Inr s)
  then show ?thesis by blast
qed

section \<open>The claims\<close>

text \<open>
  Claim C1. A \<^verbatim>\<open>len\<close> call in truthiness position, whose argument reaches the
  inference step (it is no comprehension or generator expression) and infers to a value
  whose base classes contain \<^verbatim>\<open>str\<close>, \<^verbatim>\<open>tuple\<close>, \<^verbatim>\<open>list\<close> or
  \<^verbatim>\<open>set\<close> and not \<^verbatim>\<open>range\<close>: the handler adds the message at the call
  exactly when the value has no \<^verbatim>\<open>__bool__\<close>; with \<^verbatim>\<open>__bool__\<close> it adds nothing.
\<close>

theorem pep8_base_diagnostic_iff_no_bool_override:
  assumes "get t p = Some (Call func (len_arg # rest))"
    and "is_call_of_name (Call func (len_arg # rest)) ''len''"
    and "is_test_condition t p (skip_boolops t (parent p))"
    and "\<not> is_generator_or_comprehension len_arg"
    and "infer len_arg = Inferred inst"
    and "base_classes_of_node inst = Inr mother_classes"
    and "''str'' \<in> set mother_classes \<or> ''tuple'' \<in> set mother_classes
         \<or> ''list'' \<in> set mother_classes \<or> ''set'' \<in> set mother_classes"
    and "''range'' \<notin> set mother_classes"
  shows "visit_call infer t p sink =
         Inr (if instance_has_bool inst then sink
              else sink @ [\<lparr>msg_id = ''use-implicit-booleaness-not-len'', msg_node = p\<rparr>])"
  using assms by (auto simp: visit_call_def Let_def add_message_def)

theorem pep8_base_diagnostic_iff_no_bool_override_witness:
  "visit_call (infer_items (Inferred list_class)) if_len_items [0] []
     = Inr [\<lparr>msg_id = ''use-implicit-booleaness-not-len'', msg_node = [0]\<rparr>]
   \<and> visit_call (infer_items (Inferred list_with_bool)) if_len_items [0] [] = Inr []"
proof -
  have a: "\<not> is_generator_or_comprehension (Name ''items'')" by simp
  have n: "is_call_of_name (Call (Name ''len'') [Name ''items'']) ''len''" by simp
  have i1: "infer_items (Inferred list_class) (Name ''items'') = Inferred list_class"
    by (simp add: infer_items_def)
  have i2: "infer_items (Inferred list_with_bool) (Name ''items'') = Inferred list_with_bool"
    by (simp add: infer_items_def)
  have m1: "base_classes_of_node list_class = Inr [''list'', ''object'']"
    by (simp add: base_classes_of_node_def list_class_def)
  have m2: "base_classes_of_node list_with_bool = Inr [''Stack'', ''list'', ''object'']"
    by (simp add: base_classes_of_node_def list_with_bool_def)
  have b1: "''str'' \<in> set [''list'', ''object''] \<or> ''tuple'' \<in> set [''list'', ''object'']
         \<or> ''list'' \<in> set [''list'', ''object''] \<or> ''set'' \<in> set [''list'', ''object'']"
    by simp
  have b2: "''str'' \<in> set [''Stack'', ''list'', ''object'']
         \<or> ''tuple'' \<in> set [''Stack'', ''list'', ''object'']
         \<or> ''list'' \<in> set [''Stack'', ''list'', ''object'']
         \<or> ''set'' \<in> set [''Stack'', ''list'', ''object'']"
    by simp
  have r1: "''range'' \<notin> set [''list'', ''object'']" by simp
  have r2: "''range'' \<notin> set [''Stack'', ''list'', ''object'']" by simp
  have h1: "\<not> instance_has_bool list_class"
    by (simp add: instance_has_bool_def list_class_def)
  have h2: "instance_has_bool list_with_bool"
    by (simp add: instance_has_bool_def list_with_bool_def)
  from pep8_base_diagnostic_iff_no_bool_override
         [where infer = "infer_items (Inferred list_class)" and sink = "[]",
          OF if_len_items_call n if_len_items_test_condition a i1 m1 b1 r1]
       pep8_base_diagnostic_iff_no_bool_override
         [where infer = "infer_items (Inferred list_with_bool)" and sink = "[]",
          OF if_len_items_call n if_len_items_test_condition a i2 m2 b2 r2]
  show ?thesis by (simp add: h1 h2)
qed

text \<open>
  Claim C2. A \<^verbatim>\<open>len\<close> call in truthiness position whose argument infers to a value
  with \<^verbatim>\<open>range\<close> among its base classes: the handler adds exactly one message, at
  the call, whatever \<^verbatim>\<open>getattr\<close> answers for \<^verbatim>\<open>__bool__\<close> (no hypothesis
  restricts it, and the concrete run below has the override).
\<close>

theorem range_marker_always_one_diagnostic:
  assumes "get t p = Some (Call func (len_arg # rest))"
    and "is_call_of_name (Call func (len_arg # rest)) ''len''"
    and "is_test_condition t p (skip_boolops t (parent p))"
    and "infer len_arg = Inferred inst"
    and "base_classes_of_node inst = Inr mother_classes"
    and "''range'' \<in> set mother_classes"
  shows "visit_call infer t p sink =
         Inr (sink @ [\<lparr>msg_id = ''use-implicit-booleaness-not-len'', msg_node = p\<rparr>])"
  using assms by (simp add: visit_call_def Let_def add_message_def)

theorem range_marker_always_one_diagnostic_witness:
  "instance_has_bool range_with_bool
   \<and> visit_call (infer_items (Inferred range_with_bool)) if_len_items [0] []
       = Inr [\<lparr>msg_id = ''use-implicit-booleaness-not-len'', msg_node = [0]\<rparr>]"
proof -
  have n: "is_call_of_name (Call (Name ''len'') [Name ''items'']) ''len''" by simp
  have i: "infer_items (Inferred range_with_bool) (Name ''items'') = Inferred range_with_bool"
    by (simp add: infer_items_def)
  have m: "base_classes_of_node range_with_bool = Inr [''Span'', ''range'', ''object'']"
    by (simp add: base_classes_of_node_def range_with_bool_def)
  have r: "''range'' \<in> set [''Span'', ''range'', ''object'']" by simp
  have h: "instance_has_bool range_with_bool"
    by (simp add: instance_has_bool_def range_with_bool_def)
  from range_marker_always_one_diagnostic
         [where infer = "infer_items (Inferred range_with_bool)" and sink = "[]",
          OF if_len_items_call n if_len_items_test_condition i m r] h
  show ?thesis by simp
qed

text \<open>
  Claim C3. At any position of any tree, a \<open>UnaryOp\<close> with operator \<^verbatim>\<open>not\<close> whose
  operand is a call of the name \<^verbatim>\<open>len\<close> gets the message at the negation node.
  \<open>visit_unaryop\<close> has no inference argument and reads nothing above the node.
\<close>

theorem not_len_always_flagged:
  assumes "get t p = Some (UnaryOp ''not'' operand)"
    and "is_call_of_name operand ''len''"
  shows "visit_unaryop t p sink =
         sink @ [\<lparr>msg_id = ''use-implicit-booleaness-not-len'', msg_node = p\<rparr>]"
  using assms by (simp add: visit_unaryop_def add_message_def)

theorem not_len_always_flagged_witness:
  "visit_unaryop assign_not_len_items [1] []
     = [\<lparr>msg_id = ''use-implicit-booleaness-not-len'', msg_node = [1]\<rparr>]"
proof -
  have g: "get assign_not_len_items [1] = Some (UnaryOp ''not'' len_items)"
    by (simp add: assign_not_len_items_def)
  have n: "is_call_of_name len_items ''len''"
    by (simp add: len_items_def)
  from not_len_always_flagged[OF g n, of "[]"] show ?thesis by simp
qed

text \<open>
  Claim C4. When the argument of the call reaches the inference step and the inference
  raises \<^verbatim>\<open>InferenceError\<close>, the handler returns normally and adds no message.
\<close>

theorem inference_error_no_diagnostic:
  assumes "get t p = Some (Call func (len_arg # rest))"
    and "\<not> is_generator_or_comprehension len_arg"
    and "infer len_arg = InferenceError"
  shows "visit_call infer t p sink = Inr sink"
  using assms by (simp add: visit_call_def Let_def)

theorem inference_error_no_diagnostic_witness:
  "is_call_of_name (Call (Name ''len'') [Name ''items'']) ''len''
   \<and> is_test_condition if_len_items [0] (skip_boolops if_len_items (parent [0]))
   \<and> visit_call (infer_items InferenceError) if_len_items [0] [] = Inr []"
proof -
  have a: "\<not> is_generator_or_comprehension (Name ''items'')" by simp
  have i: "infer_items InferenceError (Name ''items'') = InferenceError"
    by (simp add: infer_items_def)
  from inference_error_no_diagnostic
         [where infer = "infer_items InferenceError" and sink = "[]",
          OF if_len_items_call a i] if_len_items_test_condition
  show ?thesis by simp
qed

text \<open>
  Claim C5. Wrapping a call in any number of nested \<open>BoolOp\<close> levels, with any
  operators and any further operands, changes neither the classification nor what the
  handler does: it raises, adds nothing, or adds the message at the call, in the rebuilt
  tree exactly when it does so in the original one.
\<close>

theorem verdict_invariant_under_boolop_nesting:
  assumes "get t p = Some c"
  shows "is_test_condition (replace t p (nest ws c)) (p @ nest_path ws)
           (skip_boolops (replace t p (nest ws c)) (parent (p @ nest_path ws)))
         = is_test_condition t p (skip_boolops t (parent p))
    \<and> (visit_call infer (replace t p (nest ws c)) (p @ nest_path ws) sink = Inl e
        \<longleftrightarrow> visit_call infer t p sink = Inl e)
    \<and> (visit_call infer (replace t p (nest ws c)) (p @ nest_path ws) sink = Inr sink
        \<longleftrightarrow> visit_call infer t p sink = Inr sink)
    \<and> (visit_call infer (replace t p (nest ws c)) (p @ nest_path ws) sink
          = Inr (sink @ [\<lparr>msg_id = ''use-implicit-booleaness-not-len'',
                           msg_node = p @ nest_path ws\<rparr>])
        \<longleftrightarrow> visit_call infer t p sink
          = Inr (sink @ [\<lparr>msg_id = ''use-implicit-booleaness-not-len'', msg_node = p\<rparr>]))"
proof -
  let ?t = "replace t p (nest ws c)" and ?p = "p @ nest_path ws"
  have g: "get ?t ?p = Some c"
    using assms by (rule get_replace_nest)
  have cls: "is_test_condition ?t ?p (skip_boolops ?t (parent ?p))
             = is_test_condition t p (skip_boolops t (parent p))"
    using assms by (rule classification_replace_nest)
  from visit_call_same_site[OF assms g cls, of infer sink e] cls show ?thesis
    by (simp add: add_message_def)
qed

theorem verdict_invariant_under_boolop_nesting_witness:
  "replace if_len_items [0]
     (nest [(''or'', [Name ''a''], []), (''and'', [], [Name ''b''])] len_items)
     = If (BoolOp ''or'' [Name ''a'', BoolOp ''and'' [len_items, Name ''b'']])
          [Other ''Pass'' []] []
   \<and> visit_call (infer_items (Inferred list_class)) if_len_items [0] []
       = Inr [\<lparr>msg_id = ''use-implicit-booleaness-not-len'', msg_node = [0]\<rparr>]
   \<and> visit_call (infer_items (Inferred list_class))
        (If (BoolOp ''or'' [Name ''a'', BoolOp ''and'' [len_items, Name ''b'']])
            [Other ''Pass'' []] [])
        [0, 1, 0] []
       = Inr [\<lparr>msg_id = ''use-implicit-booleaness-not-len'', msg_node = [0, 1, 0]\<rparr>]"
proof -
  let ?ws = "[(''or'', [Name ''a''], []), (''and'', [], [Name ''b''])]"
  have g: "get if_len_items [0] = Some len_items"
    by (simp add: if_len_items_def)
  have r: "replace if_len_items [0] (nest ?ws len_items)
           = If (BoolOp ''or'' [Name ''a'', BoolOp ''and'' [len_items, Name ''b'']])
                [Other ''Pass'' []] []"
    by (simp add: if_len_items_def)
  have p: "[0] @ nest_path ?ws = [0, 1, 0]"
    by (simp add: nest_path_def)
  have v: "visit_call (infer_items (Inferred list_class)) if_len_items [0] []
           = Inr [\<lparr>msg_id = ''use-implicit-booleaness-not-len'', msg_node = [0]\<rparr>]"
    by (rule if_len_items_list_class)
  from verdict_invariant_under_boolop_nesting
         [OF g, of ?ws "infer_items (Inferred list_class)" "[]"]
  show ?thesis unfolding r p using v by simp
qed

text \<open>
  Claim C6. When the test site found above the call is not a test condition for it, the
  handler adds no message, whatever the inference would answer.
\<close>

theorem outside_test_condition_no_diagnostic:
  assumes "\<not> is_test_condition t p (skip_boolops t (parent p))"
  shows "visit_call infer t p sink = Inr sink"
  using assms by (simp add: visit_call_def Let_def split: option.splits)

theorem outside_test_condition_no_diagnostic_witness:
  "get assign_len_items [1] = Some len_items
   \<and> visit_call (infer_items (Inferred list_class)) assign_len_items [1] [] = Inr []"
proof -
  have c: "\<not> is_test_condition assign_len_items [1] (skip_boolops assign_len_items (parent [1]))"
    unfolding assign_len_items_site by (simp add: is_test_condition_def assign_len_items_def)
  have g: "get assign_len_items [1] = Some len_items"
    by (simp add: assign_len_items_def)
  from outside_test_condition_no_diagnostic[OF c, of "infer_items (Inferred list_class)" "[]"] g
  show ?thesis by simp
qed

text \<open>
  Claim C7. A \<^verbatim>\<open>len\<close> call in truthiness position whose first argument is a list,
  set or dict comprehension or a generator expression gets exactly one message at the
  call, for every inference whatsoever: the inference is not consulted.
\<close>

theorem comprehension_argument_one_diagnostic:
  assumes "get t p = Some (Call func (len_arg # rest))"
    and "is_call_of_name (Call func (len_arg # rest)) ''len''"
    and "is_test_condition t p (skip_boolops t (parent p))"
    and "is_generator_or_comprehension len_arg"
  shows "visit_call infer t p sink =
         Inr (sink @ [\<lparr>msg_id = ''use-implicit-booleaness-not-len'', msg_node = p\<rparr>])"
  using assms by (simp add: visit_call_def Let_def add_message_def)

theorem comprehension_argument_one_diagnostic_witness:
  "visit_call (\<lambda>n. InferenceError) if_len_listcomp [0] []
     = Inr [\<lparr>msg_id = ''use-implicit-booleaness-not-len'', msg_node = [0]\<rparr>]"
proof -
  let ?arg = "ListComp [Name ''y'', Other ''Comprehension'' [Name ''y'', Name ''ys'']]"
  have g: "get if_len_listcomp [0] = Some (Call (Name ''len'') [?arg])"
    by (simp add: if_len_listcomp_def)
  have n: "is_call_of_name (Call (Name ''len'') [?arg]) ''len''" by simp
  have c: "is_test_condition if_len_listcomp [0] (skip_boolops if_len_listcomp (parent [0]))"
    by (simp add: is_test_condition_def parent_def if_len_listcomp_def)
  have a: "is_generator_or_comprehension ?arg" by simp
  from comprehension_argument_one_diagnostic[OF g n c a, of "\<lambda>n. InferenceError" "[]"]
  show ?thesis by simp
qed

text \<open>
  Claim C8. For \<^verbatim>\<open>if not len(items):\<close>, that is a condition whose test is a
  \<^verbatim>\<open>not\<close> applied to a \<^verbatim>\<open>len\<close> call: the call is not in truthiness position,
  the call handler adds nothing, and visiting the negation and then the call leaves exactly
  one new message, at the negation node.
\<close>

theorem if_not_len_single_diagnostic:
  assumes "get t q = Some cond" and "is_condition cond"
    and "get t (q @ [0]) = Some (UnaryOp ''not'' c)"
    and "is_call_of_name c ''len''"
  shows "get t (q @ [0, 0]) = Some c
    \<and> \<not> is_test_condition t (q @ [0, 0]) (skip_boolops t (parent (q @ [0, 0])))
    \<and> visit_call infer t (q @ [0, 0]) sink = Inr sink
    \<and> visit_call infer t (q @ [0, 0]) (visit_unaryop t (q @ [0]) sink)
        = Inr (sink @ [\<lparr>msg_id = ''use-implicit-booleaness-not-len'', msg_node = q @ [0]\<rparr>])"
proof -
  have p: "parent (q @ [0, 0]) = Some (q @ [0])"
    using parent_snoc[of "q @ [0]" 0] by simp
  have g: "get t (q @ [0, 0]) = Some c"
    using get_append[of t "q @ [0]" "[0]"] assms(3) by simp
  have s: "skip_boolops t (Some (q @ [0])) = Some (q @ [0])"
    using assms(3) by simp
  have n: "\<not> is_test_condition t (q @ [0, 0]) (skip_boolops t (parent (q @ [0, 0])))"
    unfolding p s using assms(3) by (simp add: is_test_condition_def)
  have v: "visit_call infer t (q @ [0, 0]) s' = Inr s'" for s'
    using n by (simp add: visit_call_def Let_def split: option.splits)
  have u: "visit_unaryop t (q @ [0]) sink
           = sink @ [\<lparr>msg_id = ''use-implicit-booleaness-not-len'', msg_node = q @ [0]\<rparr>]"
    using assms(3,4) by (simp add: visit_unaryop_def add_message_def)
  show ?thesis using g n v u by simp
qed

theorem if_not_len_single_diagnostic_witness:
  "visit_call (infer_items (Inferred list_class)) if_not_len_items [0, 0]
     (visit_unaryop if_not_len_items [0] [])
   = Inr [\<lparr>msg_id = ''use-implicit-booleaness-not-len'', msg_node = [0]\<rparr>]"
proof -
  have g: "get if_not_len_items [] = Some if_not_len_items" by simp
  have k: "is_condition if_not_len_items" by (simp add: if_not_len_items_def)
  have u: "get if_not_len_items ([] @ [0]) = Some (UnaryOp ''not'' len_items)"
    by (simp add: if_not_len_items_def)
  have n: "is_call_of_name len_items ''len''" by (simp add: len_items_def)
  from if_not_len_single_diagnostic[OF g k u n, of "infer_items (Inferred list_class)" "[]"]
  show ?thesis by simp
qed

text \<open>
  Claim C9. The table \<open>msgs\<close> has the single entry C1802 with the symbol
  \<^verbatim>\<open>use-implicit-booleaness-not-len\<close>; a visit of either handler that returns adds
  nothing or exactly one message, and that message carries this symbol and the visited node.
\<close>

theorem single_message_symbol:
  "map (\<lambda>(msgid, msg, symbol, descr, old_names). (msgid, symbol)) msgs
     = [(''C1802'', ''use-implicit-booleaness-not-len'')]
   \<and> (\<forall>s. visit_call infer t p sink = Inr s \<longrightarrow>
          s = sink \<or> s = sink @ [\<lparr>msg_id = ''use-implicit-booleaness-not-len'', msg_node = p\<rparr>])
   \<and> (visit_unaryop t p sink = sink
       \<or> visit_unaryop t p sink
           = sink @ [\<lparr>msg_id = ''use-implicit-booleaness-not-len'', msg_node = p\<rparr>])"
proof (intro conjI allI impI)
  show "map (\<lambda>(msgid, msg, symbol, descr, old_names). (msgid, symbol)) msgs
        = [(''C1802'', ''use-implicit-booleaness-not-len'')]"
    by (simp add: msgs_def)
next
  fix s assume "visit_call infer t p sink = Inr s"
  then show "s = sink \<or> s = sink @ [\<lparr>msg_id = ''use-implicit-booleaness-not-len'', msg_node = p\<rparr>]"
    by (auto simp: visit_call_def Let_def add_message_def
             split: option.splits if_splits node.splits list.splits inference.splits
               sum.splits)
next
  show "visit_unaryop t p sink = sink
        \<or> visit_unaryop t p sink
            = sink @ [\<lparr>msg_id = ''use-implicit-booleaness-not-len'', msg_node = p\<rparr>]"
    by (auto simp: visit_unaryop_def add_message_def split: option.splits node.splits)
qed

theorem single_message_symbol_witness:
  "visit_call (infer_items (Inferred list_class)) if_len_items [0] []
     = Inr [\<lparr>msg_id = ''use-implicit-booleaness-not-len'', msg_node = [0]\<rparr>]
   \<and> ([\<lparr>msg_id = ''use-implicit-booleaness-not-len'', msg_node = [0]\<rparr>] = []
       \<or> [\<lparr>msg_id = ''use-implicit-booleaness-not-len'', msg_node = [0]\<rparr>]
           = [] @ [\<lparr>msg_id = ''use-implicit-booleaness-not-len'', msg_node = [0::nat]\<rparr>])"
proof -
  have v: "visit_call (infer_items (Inferred list_class)) if_len_items [0] []
           = Inr [\<lparr>msg_id = ''use-implicit-booleaness-not-len'', msg_node = [0]\<rparr>]"
    by (rule if_len_items_list_class)
  from single_message_symbol[of "infer_items (Inferred list_class)" if_len_items "[0]" "[]"] v
  show ?thesis by simp
qed

text \<open>
  Claim C10. For a \<^verbatim>\<open>len\<close> call in truthiness position the handler reads
  \<^verbatim>\<open>node.args[0]\<close> unguarded, and with an argument present it should return. It
  does not always: in \<^verbatim>\<open>if len(os): pass\<close> after \<^verbatim>\<open>import os\<close> the call is a
  \<^verbatim>\<open>len\<close> call in truthiness position with one argument, the argument is no
  comprehension and infers to the module, and the handler raises the
  \<^verbatim>\<open>AttributeError\<close> of \<^verbatim>\<open>instance.ancestors()\<close>, which
  \<^verbatim>\<open>base_classes_of_node\<close> does not catch.
\<close>

theorem first_argument_access_module_raises:
  "get if_len_os [0] = Some (Call (Name ''len'') [Name ''os''])
   \<and> is_call_of_name (Call (Name ''len'') [Name ''os'']) ''len''
   \<and> is_test_condition if_len_os [0] (skip_boolops if_len_os (parent [0]))
   \<and> \<not> is_generator_or_comprehension (Name ''os'')
   \<and> infer_os (Name ''os'') = Inferred module_os
   \<and> base_classes_of_node module_os = Inl AttributeError
   \<and> visit_call infer_os if_len_os [0] [] = Inl AttributeError"
  by (simp add: visit_call_def if_len_os_def is_test_condition_def parent_def
        infer_os_def module_os_def base_classes_of_node_def)

end
